theory Spec2Isabelle
  imports Complex_Main "HOL-Library.Word" "HOL-Library.Log_Nat"
begin

section \<open>Bytes, frames and the Python primitives the scripts use\<close>

text \<open>
  The scripts \<^verbatim>\<open>scripts/nanovna.py\<close> (class \<^verbatim>\<open>NanoVNA_SAA2\<close>),
  \<^verbatim>\<open>scripts/nanovna_original.py\<close> (class \<^verbatim>\<open>NanoVNA_Simple\<close>) and
  \<^verbatim>\<open>scripts/s2p_extraction.py\<close> (class \<^verbatim>\<open>VNAMeasurement\<close>) are embedded here.
  A Python \<^verbatim>\<open>bytes\<close> value is a list of 8-bit words, a Python \<^verbatim>\<open>int\<close> is an
  \<^typ>\<open>int\<close>, and every exception the embedded code can raise is a value of
  \<open>py_error\<close>.
\<close>

type_synonym byte = "8 word"
type_synonym frame = "byte list"

datatype py_error = OverflowError | StructError | ZeroDivisionError | ValueError

text \<open>
  \<^verbatim>\<open>x.to_bytes(n, 'little')\<close>: the \<open>n\<close> little-endian bytes of \<open>x\<close>; Python raises
  OverflowError for a negative \<open>x\<close> and for one that does not fit in \<open>n\<close> bytes.
\<close>

definition to_bytes :: "int \<Rightarrow> nat \<Rightarrow> py_error + byte list" where
  "to_bytes x n =
     (if x < 0 \<or> 256 ^ n \<le> x then Inl OverflowError
      else Inr (map (\<lambda>i. word_of_int (x div 256 ^ i)) [0..<n]))"

subsection \<open>True division of integers and truncation of the quotient\<close>

text \<open>
  \<^verbatim>\<open>a / b\<close> on two Python ints is the binary64 number nearest to the exact quotient
  (ties to the even mantissa). A binary64 value is kept here as a pair \<open>(m, e)\<close> of
  integers that stands for \<open>m * 2 ^ e\<close>, so that the rounding is computed on integers.
\<close>

type_synonym binary64 = "int \<times> int"

definition round_half_even :: "int \<Rightarrow> int \<Rightarrow> int" where
  "round_half_even p q =
     (let f = p div q; r = p mod q
      in if 2 * r < q then f
         else if q < 2 * r then f + 1
         else if even f then f else f + 1)"

text \<open>
  The quotient of two positive integers: with \<open>t = bitlen a - bitlen b\<close> the exact
  quotient lies strictly between \<open>2 ^ (t - 1)\<close> and \<open>2 ^ (t + 1)\<close>; the exponent
  \<open>e\<close> is chosen so that the mantissa has 53 bits, and never below the exponent
  \<open>-1074\<close> of the subnormal numbers.
\<close>

definition float_quotient :: "int \<Rightarrow> int \<Rightarrow> binary64" where
  "float_quotient a b =
     (let t = bitlen a - bitlen b;
          e0 = (if a * 2 ^ nat (- t) < b * 2 ^ nat t then t - 53 else t - 52);
          e = max e0 (- 1074);
          m = round_half_even (a * 2 ^ nat (- e)) (b * 2 ^ nat e)
      in (m, e))"

definition py_truediv :: "int \<Rightarrow> int \<Rightarrow> py_error + binary64" where
  "py_truediv a b =
     (if b = 0 then Inl ZeroDivisionError
      else if a = 0 then Inr (0, 0)
      else (case float_quotient \<bar>a\<bar> \<bar>b\<bar> of
              (m, e) \<Rightarrow>
                if 2 ^ 1024 \<le> m * 2 ^ nat e then Inl OverflowError
                else Inr (sgn a * sgn b * m, e)))"

text \<open>\<^verbatim>\<open>int(x)\<close> on a float truncates towards zero.\<close>

definition py_int :: "binary64 \<Rightarrow> int" where
  "py_int x =
     (case x of (m, e) \<Rightarrow>
        if 0 \<le> e then m * 2 ^ nat e else sgn m * (\<bar>m\<bar> div 2 ^ nat (- e)))"

text \<open>
  Converting an int to a float (as \<^verbatim>\<open>start_hz/1e6\<close> does inside the f-string of
  \<^verbatim>\<open>NanoVNA_SAA2.setup_sweep\<close>) raises OverflowError when the int rounds to
  \<open>2 ^ 1024\<close> or more.
\<close>

definition float_overflows :: "int \<Rightarrow> bool" where
  "float_overflows x \<longleftrightarrow> 2 ^ 1024 - 2 ^ 970 \<le> \<bar>x\<bar>"

section \<open>Transport\<close>

text \<open>
  The serial link. \<open>sent\<close> is the list of frames written so far; \<open>inbox k\<close> is what
  the device has made available when the reply to the \<open>k\<close>-th command is read (the
  replies of a simulated transport). \<^verbatim>\<open>_send_command\<close> writes the frame and returns
  those bytes, possibly none.
\<close>

record link =
  sent :: "frame list"
  inbox :: "nat \<Rightarrow> byte list"

text \<open>A simulated transport on which nothing was written and that never answers.\<close>

definition silent_link :: link where
  "silent_link = \<lparr>sent = [], inbox = (\<lambda>k. [])\<rparr>"

definition send_command :: "link \<Rightarrow> frame \<Rightarrow> byte list \<times> link" where
  "send_command l command_bytes =
     (inbox l (length (sent l)), l\<lparr>sent := sent l @ [command_bytes]\<rparr>)"

section \<open>Sweep programming\<close>

text \<open>
  \<^verbatim>\<open>for i in range(8): self._send_command(bytes([0x20, base + i, bs[i]]))\<close>
\<close>

definition write_registers :: "link \<Rightarrow> nat \<Rightarrow> byte list \<Rightarrow> link" where
  "write_registers l base bs =
     foldl (\<lambda>l' i. snd (send_command l' [0x20, of_nat (base + i), bs ! i])) l [0..<8]"

text \<open>
  \<^verbatim>\<open>step_hz = (stop_hz - start_hz) / (points - 1) if points > 1 else 0\<close>
\<close>

definition sweep_step :: "int \<Rightarrow> int \<Rightarrow> int \<Rightarrow> py_error + binary64" where
  "sweep_step start_hz stop_hz points =
     (if points > 1 then py_truediv (stop_hz - start_hz) (points - 1) else Inr (0, 0))"

text \<open>
  \<^verbatim>\<open>NanoVNA_SAA2.setup_sweep\<close>, for frequencies given as Python ints (the
  unsigned 64-bit Hz values of the specification). The result is the exception that
  ended the call, if any, and the link as the call left it. The replies to the writes
  are discarded, as in the source; the sleeps and the printing have no effect on the
  frames, but the f-string converts both frequencies to floats before anything is
  written. The callers in the scripts pass floats with integer values below
  \<open>2 ^ 53\<close>, on which \<^verbatim>\<open>int()\<close>, the subtraction and the division give the same
  numbers as on the ints.
\<close>

definition setup_sweep :: "link \<Rightarrow> int \<Rightarrow> int \<Rightarrow> int \<Rightarrow> py_error option \<times> link" where
  "setup_sweep l start_hz stop_hz points =
     (if float_overflows start_hz \<or> float_overflows stop_hz then (Some OverflowError, l)
      else
        (case sweep_step start_hz stop_hz points of
           Inl err \<Rightarrow> (Some err, l)
         | Inr step_hz \<Rightarrow>
            (case to_bytes start_hz 8 of
               Inl err \<Rightarrow> (Some err, l)
             | Inr start_bytes \<Rightarrow>
                (let l1 = write_registers l 0x00 start_bytes
                 in case to_bytes (py_int step_hz) 8 of
                      Inl err \<Rightarrow> (Some err, l1)
                    | Inr step_bytes \<Rightarrow>
                       (let l2 = write_registers l1 0x10 step_bytes
                        in case to_bytes points 2 of
                             Inl err \<Rightarrow> (Some err, l2)
                           | Inr points_bytes \<Rightarrow>
                              (let l3 = snd (send_command l2 [0x20, 0x20, points_bytes ! 0]);
                                   l4 = snd (send_command l3 [0x20, 0x21, points_bytes ! 1])
                               in case to_bytes 1 2 of
                                    Inl err \<Rightarrow> (Some err, l4)
                                  | Inr values_bytes \<Rightarrow>
                                     (let l5 = snd (send_command l4 [0x20, 0x22, values_bytes ! 0]);
                                          l6 = snd (send_command l5 [0x20, 0x23, values_bytes ! 1])
                                      in (None, l6))))))))"

text \<open>
  \<^verbatim>\<open>NanoVNA_Simple.setup_sweep\<close>: the same writes, without the f-string and with the
  last two frames written as literals.
\<close>

definition setup_sweep_simple :: "link \<Rightarrow> int \<Rightarrow> int \<Rightarrow> int \<Rightarrow> py_error option \<times> link" where
  "setup_sweep_simple l start_hz stop_hz points =
     (case sweep_step start_hz stop_hz points of
        Inl err \<Rightarrow> (Some err, l)
      | Inr step_hz \<Rightarrow>
         (case to_bytes start_hz 8 of
            Inl err \<Rightarrow> (Some err, l)
          | Inr start_bytes \<Rightarrow>
             (let l1 = write_registers l 0x00 start_bytes
              in case to_bytes (py_int step_hz) 8 of
                   Inl err \<Rightarrow> (Some err, l1)
                 | Inr step_bytes \<Rightarrow>
                    (let l2 = write_registers l1 0x10 step_bytes
                     in case to_bytes points 2 of
                          Inl err \<Rightarrow> (Some err, l2)
                        | Inr points_bytes \<Rightarrow>
                           (let l3 = snd (send_command l2 [0x20, 0x20, points_bytes ! 0]);
                                l4 = snd (send_command l3 [0x20, 0x21, points_bytes ! 1]);
                                l5 = snd (send_command l4 [0x20, 0x22, 1]);
                                l6 = snd (send_command l5 [0x20, 0x23, 0])
                            in (None, l6))))))"

text \<open>
  The frames the specification asks for, written from its words: register \<open>base + i\<close>
  receives byte \<open>i\<close> of the value, least significant first, each in a WRITE frame
  \<open>[0x20, address, value]\<close>.
\<close>

definition write_frames :: "nat \<Rightarrow> nat \<Rightarrow> int \<Rightarrow> frame list" where
  "write_frames base n x =
     map (\<lambda>i. [0x20, of_nat (base + i), of_int ((x div 2 ^ (8 * i)) mod 256)]) [0..<n]"

section \<open>Record decoding\<close>

text \<open>\<^verbatim>\<open>data[i:j]\<close> for \<open>0 \<le> i \<le> j\<close>: shorter than \<open>j - i\<close> when the data end early.\<close>

definition py_slice :: "'a list \<Rightarrow> nat \<Rightarrow> nat \<Rightarrow> 'a list" where
  "py_slice xs i j = take (j - i) (drop i xs)"

text \<open>The unsigned value of a little-endian byte string.\<close>

definition le_uint :: "byte list \<Rightarrow> int" where
  "le_uint bs = foldr (\<lambda>b acc. uint b + 256 * acc) bs 0"

text \<open>
  \<^verbatim>\<open>struct.unpack('<i', bs)[0]\<close> and \<^verbatim>\<open>struct.unpack('<H', bs)[0]\<close>: struct.error
  unless the buffer has exactly 4 (2) bytes.
\<close>

definition unpack_i32 :: "byte list \<Rightarrow> py_error + int" where
  "unpack_i32 bs =
     (if length bs = 4
      then Inr (let v = le_uint bs in if v < 2 ^ 31 then v else v - 2 ^ 32)
      else Inl StructError)"

definition unpack_u16 :: "byte list \<Rightarrow> py_error + int" where
  "unpack_u16 bs = (if length bs = 2 then Inr (le_uint bs) else Inl StructError)"

text \<open>Division of Python complex numbers raises ZeroDivisionError on a zero divisor.\<close>

definition py_complex_div :: "complex \<Rightarrow> complex \<Rightarrow> py_error + complex" where
  "py_complex_div z w = (if w = 0 then Inl ZeroDivisionError else Inr (z / w))"

text \<open>Sequencing of statements that may raise.\<close>

definition bind_r :: "py_error + 'a \<Rightarrow> ('a \<Rightarrow> py_error + 'b) \<Rightarrow> py_error + 'b" where
  "bind_r r f = (case r of Inl err \<Rightarrow> Inl err | Inr v \<Rightarrow> f v)"

text \<open>
  The dictionary \<^verbatim>\<open>_parse_fifo_data\<close> returns. The components of the complex
  numbers are binary64 in the source; here they are real numbers and the arithmetic
  on them is exact. The integers read from a record are below \<open>2 ^ 31\<close> in absolute
  value, so a reference is either zero or of magnitude at least 1, and the comparison
  with \<^verbatim>\<open>1e-6\<close> has the same outcome in both.
\<close>

record sample =
  freq_index :: int
  s11 :: complex
  s21 :: complex
  s11_magnitude :: real
  s11_phase :: real
  s21_magnitude :: real
  s21_phase :: real
  raw_reference :: real

text \<open>The body of the \<^verbatim>\<open>try\<close> block of \<^verbatim>\<open>NanoVNA_SAA2._parse_fifo_data\<close>.\<close>

definition parse_fifo_body :: "byte list \<Rightarrow> py_error + sample option" where
  "parse_fifo_body fifo_data =
     (if length fifo_data = 32 then
        bind_r (unpack_i32 (py_slice fifo_data 0 4)) (\<lambda>fwd0_re.
        bind_r (unpack_i32 (py_slice fifo_data 4 8)) (\<lambda>fwd0_im.
        bind_r (unpack_i32 (py_slice fifo_data 8 12)) (\<lambda>rev0_re.
        bind_r (unpack_i32 (py_slice fifo_data 12 16)) (\<lambda>rev0_im.
        bind_r (unpack_i32 (py_slice fifo_data 16 20)) (\<lambda>rev1_re.
        bind_r (unpack_i32 (py_slice fifo_data 20 24)) (\<lambda>rev1_im.
        bind_r (unpack_u16 (py_slice fifo_data 24 26)) (\<lambda>freq_index.
          let reference = Complex (of_int fwd0_re) (of_int fwd0_im);
              s11_raw = Complex (of_int rev0_re) (of_int rev0_im);
              s21_raw = Complex (of_int rev1_re) (of_int rev1_im)
          in bind_r
               (if cmod reference > 1 / 10 ^ 6
                then bind_r (py_complex_div s11_raw reference) (\<lambda>s11.
                     bind_r (py_complex_div s21_raw reference) (\<lambda>s21. Inr (s11, s21)))
                else Inr (0, 0))
               (\<lambda>(s11, s21).
                  Inr (Some \<lparr>freq_index = freq_index, s11 = s11, s21 = s21,
                             s11_magnitude = cmod s11, s11_phase = Arg s11,
                             s21_magnitude = cmod s21, s21_phase = Arg s21,
                             raw_reference = cmod reference\<rparr>)))))))))
      else Inr None)"

text \<open>\<^verbatim>\<open>except Exception: return None\<close>\<close>

definition parse_fifo_data :: "byte list \<Rightarrow> sample option" where
  "parse_fifo_data fifo_data =
     (case parse_fifo_body fifo_data of Inl err \<Rightarrow> None | Inr r \<Rightarrow> r)"

text \<open>\<^verbatim>\<open>NanoVNA_Simple._parse_data\<close>, which reads the first four integers only.\<close>

record measurement =
  m_s11 :: complex
  magnitude :: real
  phase :: real

definition parse_data_body :: "byte list \<Rightarrow> py_error + measurement" where
  "parse_data_body data =
     bind_r (unpack_i32 (py_slice data 0 4)) (\<lambda>fwd0_re.
     bind_r (unpack_i32 (py_slice data 4 8)) (\<lambda>fwd0_im.
     bind_r (unpack_i32 (py_slice data 8 12)) (\<lambda>rev0_re.
     bind_r (unpack_i32 (py_slice data 12 16)) (\<lambda>rev0_im.
       let reference = Complex (of_int fwd0_re) (of_int fwd0_im);
           s11_raw = Complex (of_int rev0_re) (of_int rev0_im)
       in bind_r
            (if cmod reference > 1 / 10 ^ 6 then py_complex_div s11_raw reference
             else Inr 0)
            (\<lambda>s11. Inr \<lparr>m_s11 = s11, magnitude = cmod s11, phase = Arg s11\<rparr>)))))"

definition parse_data :: "byte list \<Rightarrow> measurement option" where
  "parse_data data = (case parse_data_body data of Inl err \<Rightarrow> None | Inr r \<Rightarrow> Some r)"

text \<open>
  The decoding loop shared by \<^verbatim>\<open>capture_data_smart\<close> and \<^verbatim>\<open>capture_data\<close>:
  \<^verbatim>\<open>for i in range(0, len(data), 32): chunk = data[i:i+32]\<close>, a chunk is parsed when
  it has 32 bytes and the result is appended unless it is \<^verbatim>\<open>None\<close>.
\<close>

definition chunk_starts :: "nat \<Rightarrow> nat list" where
  "chunk_starts n = map (\<lambda>k. 32 * k) [0..<(n + 31) div 32]"

definition decode_chunks :: "(byte list \<Rightarrow> 'a option) \<Rightarrow> byte list \<Rightarrow> 'a list" where
  "decode_chunks parse data =
     foldl (\<lambda>points i.
              let chunk = py_slice data i (i + 32)
              in if length chunk = 32
                 then (case parse chunk of Some p \<Rightarrow> points @ [p] | None \<Rightarrow> points)
                 else points)
       [] (chunk_starts (length data))"

text \<open>\<^verbatim>\<open>xs[:n]\<close> for an int \<open>n\<close>; a negative \<open>n\<close> counts from the end.\<close>

definition take_py :: "int \<Rightarrow> 'a list \<Rightarrow> 'a list" where
  "take_py n xs = (if 0 \<le> n then take (nat n) xs else take (length xs - nat (- n)) xs)"

text \<open>
  The fields the specification names, written from its words: the little-endian signed
  32-bit integer and the little-endian unsigned 16-bit integer at an offset of a record.
\<close>

definition i32_le_at :: "byte list \<Rightarrow> nat \<Rightarrow> int" where
  "i32_le_at d off =
     sint (word_of_int (uint (d ! off) + 2 ^ 8 * uint (d ! (off + 1))
                        + 2 ^ 16 * uint (d ! (off + 2)) + 2 ^ 24 * uint (d ! (off + 3))) :: 32 word)"

definition u16_le_at :: "byte list \<Rightarrow> nat \<Rightarrow> int" where
  "u16_le_at d off = uint (d ! off) + 2 ^ 8 * uint (d ! (off + 1))"

text \<open>
  The calibration the specification names, written from its words: the raw value
  divided by the reference when the magnitude of the reference exceeds \<open>1e-6\<close>,
  and \<open>0+0i\<close> otherwise.
\<close>

definition calibrate :: "complex \<Rightarrow> complex \<Rightarrow> complex" where
  "calibrate raw reference = (if cmod reference > 1 / 10 ^ 6 then raw / reference else 0)"

text \<open>
  Two records for the examples below. In \<open>record_a\<close> the forward reference is
  \<open>1+0i\<close>, the reverse channels are \<open>2+0i\<close> and \<open>-1+3i\<close> and the frequency index
  is 5; in \<open>record_zero_ref\<close> the forward reference is \<open>0+0i\<close>, the reverse channels
  are \<open>2+7i\<close> and \<open>-1+3i\<close> and the frequency index is 9.
\<close>

definition record_a :: "byte list" where
  "record_a = [1, 0, 0, 0, 0, 0, 0, 0, 2, 0, 0, 0, 0, 0, 0, 0,
               0xFF, 0xFF, 0xFF, 0xFF, 3, 0, 0, 0, 5, 0, 0, 0, 0, 0, 0, 0]"

definition record_zero_ref :: "byte list" where
  "record_zero_ref = [0, 0, 0, 0, 0, 0, 0, 0, 2, 0, 0, 0, 7, 0, 0, 0,
                      0xFF, 0xFF, 0xFF, 0xFF, 3, 0, 0, 0, 9, 0, 0, 0, 0, 0, 0, 0]"

section \<open>Capture\<close>

text \<open>What the device answers to the \<open>i\<close>-th command written from the state \<open>l\<close> on.\<close>

definition reply :: "link \<Rightarrow> nat \<Rightarrow> byte list" where
  "reply l i = inbox l (length (sent l) + i)"

text \<open>
  A simulated transport that answers nothing to its first two commands and the 32
  bytes of \<open>record_a\<close> to every command after them.
\<close>

definition slow_link :: link where
  "slow_link = \<lparr>sent = [], inbox = (\<lambda>k. if k < 2 then [] else record_a)\<rparr>"

text \<open>\<^verbatim>\<open>clear_fifo\<close>: a WRITE of any value to address \<open>0x30\<close>.\<close>

definition clear_fifo :: "link \<Rightarrow> link" where
  "clear_fifo l = snd (send_command l [0x20, 0x30, 0x00])"

text \<open>
  \<^verbatim>\<open>bytes([0x18, 0x30, block_size & 0xFF, (block_size >> 8) & 0xFF])\<close>
\<close>

definition readfifo :: "nat \<Rightarrow> frame" where
  "readfifo block_size =
     [0x18, 0x30, of_nat (block_size mod 256), of_nat ((block_size div 256) mod 256)]"

text \<open>
  The loop \<^verbatim>\<open>for attempt in range(5)\<close> of \<^verbatim>\<open>capture_data_smart\<close>, with the number
  of attempts that remain as its first argument.
\<close>

fun capture_attempts :: "nat \<Rightarrow> int \<Rightarrow> link \<Rightarrow> byte list \<Rightarrow> byte list \<times> link" where
  "capture_attempts 0 expected_points l all_data = (all_data, l)"
| "capture_attempts (Suc remaining) expected_points l all_data =
     (case send_command l (readfifo 256) of
        (block_data, l') \<Rightarrow>
          if block_data = [] then capture_attempts remaining expected_points l' all_data
          else (let all_data' = all_data @ block_data
                in if expected_points * 32 \<le> int (length all_data') then (all_data', l')
                   else capture_attempts remaining expected_points l' all_data'))"

text \<open>
  \<^verbatim>\<open>np.linspace(start, stop, n)\<close>, in exact arithmetic: \<open>n\<close> evenly spaced values, the
  last one set to \<open>stop\<close>; the single value \<open>start\<close> when \<open>n = 1\<close>.
\<close>

definition linspace :: "real \<Rightarrow> real \<Rightarrow> nat \<Rightarrow> real list" where
  "linspace start stop n =
     (if n = 1 then [start]
      else map (\<lambda>i. if i = n - 1 then stop
                     else start + real i * ((stop - start) / real (n - 1))) [0..<n])"

text \<open>\<^verbatim>\<open>NanoVNA_SAA2.capture_data_smart\<close>\<close>

definition capture_data_smart :: "link \<Rightarrow> int \<Rightarrow> (real list \<times> sample list) \<times> link" where
  "capture_data_smart l expected_points =
     (let l1 = clear_fifo l
      in case capture_attempts 5 expected_points l1 [] of
           (all_data, l2) \<Rightarrow>
             (let data_points = take_py expected_points (decode_chunks parse_fifo_data all_data);
                  frequencies = (if data_points = [] then []
                                 else linspace 1000000 100000000 (length data_points))
              in ((frequencies, data_points), l2)))"

text \<open>\<^verbatim>\<open>NanoVNA_Simple.capture_data\<close>: one read of 1024 bytes.\<close>

definition capture_data :: "link \<Rightarrow> int \<Rightarrow> measurement list \<times> link" where
  "capture_data l points =
     (let l1 = snd (send_command l [0x20, 0x30, 0x00])
      in case send_command l1 [0x18, 0x30, 0x00, 0x04] of
           (data, l2) \<Rightarrow> (take_py points (decode_chunks parse_data data), l2))"


text \<open>
  Choice 1 of the menu of \<^verbatim>\<open>nanovna_original.main\<close>, for entries in whole MHz:
  the entries are validated, and only then is the sweep written and measured. An
  exception leaves the menu loop with the link as it is.
\<close>

definition configure_and_measure :: "link \<Rightarrow> int \<Rightarrow> int \<Rightarrow> int \<Rightarrow> link" where
  "configure_and_measure l start_mhz stop_mhz points =
     (if start_mhz \<ge> stop_mhz then l
      else if points < 2 \<or> points > 1001 then l
      else (let start_hz = start_mhz * 1000000;
                stop_hz = stop_mhz * 1000000
            in case setup_sweep_simple l start_hz stop_hz points of
                 (Some err, l1) \<Rightarrow> l1
               | (None, l1) \<Rightarrow> snd (capture_data l1 points)))"



section \<open>Two-port measurement\<close>

text \<open>
  \<^verbatim>\<open>VNAMeasurement\<close> of \<^verbatim>\<open>s2p_extraction.py\<close>: the frequencies and the dictionary
  \<^verbatim>\<open>s_params\<close>, empty until a measurement has been processed.
\<close>

record vna_measurement =
  frequencies :: "real list"
  s_params :: "string \<rightharpoonup> complex list"

definition new_measurement :: vna_measurement where
  "new_measurement = \<lparr>frequencies = [], s_params = Map.empty\<rparr>"

text \<open>
  \<^verbatim>\<open>_process_measurement_data\<close>, from the point where the CSV file has been read and
  its cells parsed: a row is the frequency and the complex values of the columns
  \<^verbatim>\<open>s11\<close> and \<^verbatim>\<open>s21\<close>. On a table without rows \<^verbatim>\<open>s11[0]\<close> raises IndexError, the
  method returns \<^verbatim>\<open>False\<close> and stores nothing.
\<close>

definition process_measurement_data ::
  "vna_measurement \<Rightarrow> (real \<times> complex \<times> complex) list \<Rightarrow> bool \<times> vna_measurement" where
  "process_measurement_data m rows =
     (let s11 = map (\<lambda>r. fst (snd r)) rows;
          s21 = map (\<lambda>r. snd (snd r)) rows;
          freqs = map fst rows
      in if rows = [] then (False, m)
         else (True, m\<lparr>frequencies := freqs,
                       s_params := [''S11'' \<mapsto> s11, ''S21'' \<mapsto> s21,
                                    ''S12'' \<mapsto> s21, ''S22'' \<mapsto> s11]\<rparr>))"

text \<open>
  \<^verbatim>\<open>s_matrix[:, i, j] = column\<close> on an array of shape \<open>(n, 2, 2)\<close>: numpy accepts a
  column of \<open>n\<close> values, repeats a single value, and raises ValueError otherwise.
\<close>

definition assign_column ::
  "complex list list list \<Rightarrow> nat \<Rightarrow> nat \<Rightarrow> complex list \<Rightarrow> py_error + complex list list list" where
  "assign_column s_matrix i j column =
     (let n = length s_matrix
      in if length column = n
         then Inr (map (\<lambda>k. (s_matrix ! k)[i := (s_matrix ! k ! i)[j := column ! k]]) [0..<n])
         else if length column = 1
         then Inr (map (\<lambda>k. (s_matrix ! k)[i := (s_matrix ! k ! i)[j := column ! 0]]) [0..<n])
         else Inl ValueError)"

text \<open>
  The matrix \<^verbatim>\<open>save_s2p_file\<close> hands to the Touchstone writer; \<^verbatim>\<open>None\<close> where the
  method returns \<^verbatim>\<open>False\<close> instead (nothing measured, or an exception).
\<close>

definition save_s2p_matrix :: "vna_measurement \<Rightarrow> complex list list list option" where
  "save_s2p_matrix m =
     (case (s_params m ''S11'', s_params m ''S21'', s_params m ''S12'', s_params m ''S22'') of
        (Some c11, Some c21, Some c12, Some c22) \<Rightarrow>
          if length c11 = 0 then None
          else (case bind_r (assign_column (replicate (length (frequencies m)) [[0, 0], [0, 0]]) 0 0 c11)
                       (\<lambda>m1. bind_r (assign_column m1 1 0 c21)
                       (\<lambda>m2. bind_r (assign_column m2 0 1 c12)
                       (\<lambda>m3. assign_column m3 1 1 c22))) of
                  Inl err \<Rightarrow> None
                | Inr s_matrix \<Rightarrow> Some s_matrix)
      | _ \<Rightarrow> None)"

text \<open>A table of two rows for the example below.\<close>

definition two_rows :: "(real \<times> complex \<times> complex) list" where
  "two_rows = [(1000000, Complex 1 2, Complex 3 4), (2000000, Complex 5 6, Complex 7 8)]"

section \<open>The binary64 quotient of small integers\<close>

text \<open>
  Below \<open>2 ^ 53\<close> the rounded quotient never reaches the next integer, so truncating
  it gives the integer quotient.
\<close>



lemma round_half_even_bounds:
  assumes "0 < q"
  shows "p div q \<le> round_half_even p q" "round_half_even p q \<le> p div q + 1"
    "round_half_even p q = p div q + 1 \<Longrightarrow> q \<le> 2 * (p mod q)"
  by (auto simp: round_half_even_def Let_def split: if_splits)

lemma div_less_of_less_mult:
  fixes p b X :: int
  assumes "p < b * X" "0 < b"
  shows "p div b < X"
proof (rule ccontr)
  assume "\<not> p div b < X"
  then have "b * X \<le> b * (p div b)" using assms(2) by (intro mult_left_mono) simp_all
  also have "\<dots> \<le> p"
  proof -
    have "p = b * (p div b) + p mod b" by simp
    moreover have "0 \<le> p mod b" using assms(2) by simp
    ultimately show ?thesis by linarith
  qed
  finally show False using assms(1) by simp
qed

lemma int_div_le_self: "0 \<le> x \<Longrightarrow> 0 < b \<Longrightarrow> x div b \<le> (x::int)"
  using zdiv_mono2 [of x 1 b] by simp

lemma div_mult_add_small: "0 \<le> d \<Longrightarrow> d < K \<Longrightarrow> (q * K + d) div K = (q::int)"
  by simp

lemma rne_div:
  fixes a b :: int
  assumes a: "0 \<le> a" "a < 2 ^ 53" and b: "1 \<le> b" and norm: "b * 2 ^ 52 \<le> a * 2 ^ k"
  shows "round_half_even (a * 2 ^ k) b div 2 ^ k = a div b"
proof -
  define p where "p = a * 2 ^ k"
  define m where "m = round_half_even p b"
  define q where "q = a div b"
  define r where "r = a mod b"
  define c :: int where "c = 2 ^ 52"
  have c: "0 < c" by (simp add: c_def)
  have norm': "b * c \<le> a * 2 ^ k" using norm by (simp add: c_def)
  have bpos: "0 < b" using b by simp
  have K: "(0::int) < 2 ^ k" by simp
  have aqr: "a = q * b + r" by (simp add: q_def r_def)
  have r: "0 \<le> r" "r < b" using bpos by (simp_all add: r_def)
  have p_eq: "p = (q * 2 ^ k) * b + r * 2 ^ k"
    by (simp add: p_def aqr algebra_simps)
  have lo: "q * 2 ^ k \<le> p div b"
  proof -
    have "(q * 2 ^ k) * b \<le> p" using r by (simp add: p_eq)
    then show ?thesis using bpos zdiv_mono1 by fastforce
  qed
  have hi: "p div b < (q + 1) * 2 ^ k"
  proof -
    have "r * 2 ^ k < b * 2 ^ k" using r K by simp
    then have "p < b * ((q + 1) * 2 ^ k)" by (simp add: p_eq algebra_simps)
    then show ?thesis using bpos by (rule div_less_of_less_mult)
  qed
  have m_lo: "q * 2 ^ k \<le> m"
    using lo round_half_even_bounds(1)[OF bpos, of p] by (simp add: m_def)
  have m_hi: "m < (q + 1) * 2 ^ k"
  proof (rule ccontr)
    assume "\<not> m < (q + 1) * 2 ^ k"
    then have ge: "(q + 1) * 2 ^ k \<le> m" by simp
    have "m \<le> p div b + 1" using round_half_even_bounds(2)[OF bpos, of p] by (simp add: m_def)
    with ge hi have f: "p div b = (q + 1) * 2 ^ k - 1" and up: "m = p div b + 1" by simp_all
    have half: "b \<le> 2 * (p mod b)"
      using round_half_even_bounds(3)[OF bpos, of p] up by (simp add: m_def)
    have "p = b * (p div b) + p mod b" by simp
    then have pe: "p = b * ((q + 1) * 2 ^ k - 1) + p mod b" using f by simp
    have "b * (q + 1) = a + (b - r)" by (simp add: aqr algebra_simps)
    then have "b * ((q + 1) * 2 ^ k) = a * 2 ^ k + (b - r) * 2 ^ k"
      by (metis distrib_right mult.assoc)
    with pe have "p = p + (b - r) * 2 ^ k - b + p mod b"
      by (simp add: p_def algebra_simps)
    then have "b = (b - r) * 2 ^ k + p mod b" by simp
    moreover have "2 ^ k \<le> (b - r) * 2 ^ k"
      using r mult_right_mono [of 1 "b - r" "2 ^ k"] by simp
    ultimately have "2 ^ k + p mod b \<le> b" by linarith
    with half have "2 * 2 ^ k \<le> b" by simp
    then have "(2 * 2 ^ k) * c \<le> b * c" using c by (intro mult_right_mono) simp_all
    also have "\<dots> \<le> a * 2 ^ k" by (rule norm')
    finally have "(2 * c) * 2 ^ k \<le> a * 2 ^ k" by (simp add: mult_ac)
    then have "2 * c \<le> a" using K by (rule mult_right_le_imp_le)
    with a show False by (simp add: c_def)
  qed
  have "m div 2 ^ k = q"
  proof -
    define d where "d = m - q * 2 ^ k"
    have d: "0 \<le> d" "d < 2 ^ k"
      using m_lo m_hi by (simp_all add: d_def algebra_simps)
    have "m = q * 2 ^ k + d" by (simp add: d_def)
    then show ?thesis unfolding \<open>m = q * 2 ^ k + d\<close> using d by (simp add: div_mult_add_small)
  qed
  then show ?thesis by (simp add: m_def p_def q_def)
qed


lemma py_int_nonneg: "0 \<le> m \<Longrightarrow> py_int (m, e) = (if 0 \<le> e then m * 2 ^ nat e else m div 2 ^ nat (- e))"
  by (cases "m = 0") (simp_all add: py_int_def)

lemma truediv_exact:
  fixes a b :: int
  assumes a: "0 < a" "a < 2 ^ 53" and b: "0 < b" "b < 2 ^ 16"
  shows "\<exists>q. py_truediv a b = Inr q \<and> py_int q = a div b"
proof -
  define la where "la = nat (bitlen a)"
  define lb where "lb = nat (bitlen b)"
  have la_b: "2 ^ (la - 1) \<le> a" "a < 2 ^ la"
    using bitlen_bounds [OF a(1)] by (simp_all add: la_def nat_diff_distrib' bitlen_nonneg)
  have lb_b: "2 ^ (lb - 1) \<le> b" "b < 2 ^ lb"
    using bitlen_bounds [OF b(1)] by (simp_all add: lb_def nat_diff_distrib' bitlen_nonneg)
  have la1: "1 \<le> la" using la_b(2) a(1) by (cases la) simp_all
  have lb1: "1 \<le> lb" using lb_b(2) b(1) by (cases lb) simp_all
  have la53: "la \<le> 53"
  proof (rule ccontr)
    assume "\<not> la \<le> 53"
    then have "53 \<le> la - 1" by simp
    then have "(2::int) ^ 53 \<le> 2 ^ (la - 1)" by (intro power_increasing) simp_all
    with la_b(1) a(2) show False by simp
  qed
  have lb16: "lb \<le> 16"
  proof (rule ccontr)
    assume "\<not> lb \<le> 16"
    then have "16 \<le> lb - 1" by simp
    then have "(2::int) ^ 16 \<le> 2 ^ (lb - 1)" by (intro power_increasing) simp_all
    with lb_b(1) b(2) show False by simp
  qed
  define t where "t = bitlen a - bitlen b"
  have t_eq: "t = int la - int lb" by (simp add: t_def la_def lb_def bitlen_nonneg)
  define e where "e = (if a * 2 ^ nat (- t) < b * 2 ^ nat t then t - 53 else t - 52)"
  define k where "k = nat (- e)"
  have e_range: "- 1074 \<le> e" "e \<le> 0"
    using la1 lb1 la53 lb16 by (auto simp: e_def t_eq)
  have nat_e: "nat e = 0" using e_range by simp
  have norm: "b * 2 ^ 52 \<le> a * 2 ^ k"
  proof (cases "a * 2 ^ nat (- t) < b * 2 ^ nat t")
    case True
    then have k_eq: "k = 53 + lb - la" using la53 by (simp add: k_def e_def t_eq)
    have "b * 2 ^ 52 \<le> 2 ^ lb * 2 ^ 52" using lb_b(2) by simp
    also have "\<dots> = 2 ^ (la - 1) * (2::int) ^ k"
    proof -
      have "lb + 52 = (la - 1) + k" using la1 la53 by (simp add: k_eq)
      then show ?thesis by (simp only: power_add [symmetric])
    qed
    also have "\<dots> \<le> a * 2 ^ k" using la_b(1) by (intro mult_right_mono) simp_all
    finally show ?thesis .
  next
    case False
    then have e_eq: "e = t - 52" by (simp add: e_def)
    from False have le: "b * 2 ^ nat t \<le> a * 2 ^ nat (- t)" by simp
    have k_eq: "k + nat t = 52 + nat (- t)"
      using la1 lb1 la53 lb16 by (simp add: k_def e_eq t_eq)
    have "(2::int) ^ 52 * 2 ^ nat (- t) = 2 ^ nat t * 2 ^ k"
      using k_eq by (simp only: power_add [symmetric] add.commute)
    then have "b * 2 ^ 52 * 2 ^ nat (- t) = (b * 2 ^ nat t) * 2 ^ k"
      by (simp only: mult.assoc)
    also have "\<dots> \<le> (a * 2 ^ nat (- t)) * 2 ^ k" using le by (intro mult_right_mono) simp_all
    also have "\<dots> = a * 2 ^ k * 2 ^ nat (- t)" by simp
    finally show ?thesis by simp
  qed
  define m where "m = round_half_even (a * 2 ^ k) b"
  have mx: "max e (- 1074) = e" using e_range by simp
  have fq: "float_quotient a b = (m, e)"
    unfolding float_quotient_def Let_def t_def [symmetric] e_def [symmetric] mx nat_e
      k_def [symmetric] m_def by simp
  have div: "m div 2 ^ k = a div b"
    unfolding m_def using a b norm by (intro rne_div) simp_all
  have m0: "0 \<le> m"
  proof -
    have "0 \<le> (a * 2 ^ k) div b" using a b by (simp add: pos_imp_zdiv_nonneg_iff)
    then show ?thesis using round_half_even_bounds(1) [OF b(1), of "a * 2 ^ k"] by (simp add: m_def)
  qed
  have m_small: "m < 2 ^ 1024"
  proof -
    have "k \<le> 69" using la1 lb16 by (auto simp: k_def e_def t_eq)
    have "m \<le> (a * 2 ^ k) div b + 1"
      using round_half_even_bounds(2) [OF b(1), of "a * 2 ^ k"] by (simp add: m_def)
    also have "(a * 2 ^ k) div b \<le> a * 2 ^ k"
      using a b by (intro int_div_le_self) simp_all
    also have "a * 2 ^ k \<le> 2 ^ 53 * 2 ^ 69"
      using a \<open>k \<le> 69\<close> by (intro mult_mono power_increasing) simp_all
    finally show ?thesis by simp
  qed
  have "py_truediv a b = Inr (m, e)"
    using a b m_small by (simp add: py_truediv_def fq nat_e)
  moreover have "py_int (m, e) = a div b"
  proof -
    have "py_int (m, e) = (if 0 \<le> e then m * 2 ^ nat e else m div 2 ^ nat (- e))"
      by (rule py_int_nonneg [OF m0])
    also have "\<dots> = m div 2 ^ k"
      using e_range by (cases "e = 0") (simp_all add: k_def)
    also have "\<dots> = a div b" by (rule div)
    finally show ?thesis .
  qed
  ultimately show ?thesis by blast
qed



section \<open>Frames written by the sweep configuration\<close>

lemma to_bytes_ok:
  "0 \<le> x \<Longrightarrow> x < 256 ^ n \<Longrightarrow>
   to_bytes x n = Inr (map (\<lambda>i. word_of_int (x div 256 ^ i)) [0..<n])"
  by (simp add: to_bytes_def)

lemma byte_of_int_mod: "(word_of_int (x div 256 ^ i) :: byte) = of_int ((x div 2 ^ (8 * i)) mod 256)"
proof -
  have "(256::int) ^ i = 2 ^ (8 * i)" by (simp add: power_mult)
  moreover have "(word_of_int (k mod 256) :: byte) = word_of_int k" for k
    by (simp add: word_of_int_eq_iff take_bit_eq_mod)
  ultimately show ?thesis by simp
qed

lemma upt8: "[0..<8] = [0, 1, 2, 3, 4, 5, 6, 7::nat]"
  by (simp add: upt_rec)

lemma write_registers_sent:
  "write_registers l base (map f [0..<8]) =
     l\<lparr>sent := sent l @ map (\<lambda>i. [0x20, of_nat (base + i), f i]) [0..<8]\<rparr>"
  by (simp add: write_registers_def send_command_def upt8)

lemma write_registers_frames:
  "write_registers l base (map (\<lambda>i. word_of_int (x div 256 ^ i)) [0..<8]) =
     l\<lparr>sent := sent l @ write_frames base 8 x\<rparr>"
  unfolding write_registers_sent write_frames_def byte_of_int_mod ..


lemma not_float_overflows: "\<bar>x\<bar> < 2 ^ 65 \<Longrightarrow> \<not> float_overflows x"
  by (simp add: float_overflows_def)

lemma write_two:
  "snd (send_command (snd (send_command l [0x20, of_nat base, word_of_int (x div 256 ^ 0)]))
      [0x20, of_nat (Suc base), word_of_int (x div 256 ^ 1)]) =
   l\<lparr>sent := sent l @ write_frames base 2 x\<rparr>"
  unfolding byte_of_int_mod by (simp add: send_command_def write_frames_def upt_rec)

lemma sweep_step_exact:
  assumes "start_hz < stop_hz" "stop_hz - start_hz < 2 ^ 53" "2 \<le> points" "points < 2 ^ 16"
  shows "\<exists>q. sweep_step start_hz stop_hz points = Inr q \<and>
             py_int q = (stop_hz - start_hz) div (points - 1)"
  using assms truediv_exact [of "stop_hz - start_hz" "points - 1"]
  by (simp add: sweep_step_def)

lemma setup_sweep_frames:
  assumes "0 \<le> start_hz" "start_hz < 2 ^ 64" "start_hz < stop_hz"
    and "stop_hz - start_hz < 2 ^ 53" "2 \<le> points" "points < 2 ^ 16"
  shows "setup_sweep l start_hz stop_hz points =
           (None, l\<lparr>sent := sent l @ write_frames 0x00 8 start_hz
                                   @ write_frames 0x10 8 ((stop_hz - start_hz) div (points - 1))
                                   @ write_frames 0x20 2 points
                                   @ write_frames 0x22 2 1\<rparr>)
       \<and> setup_sweep_simple l start_hz stop_hz points = setup_sweep l start_hz stop_hz points"
proof -
  define step where "step = (stop_hz - start_hz) div (points - 1)"
  obtain q where q: "sweep_step start_hz stop_hz points = Inr q" "py_int q = step"
    using sweep_step_exact [OF assms(3-6)] by (auto simp: step_def)
  have step: "0 \<le> step" "step < 256 ^ 8"
  proof -
    show "0 \<le> step" using assms by (simp add: step_def pos_imp_zdiv_nonneg_iff)
    have "step \<le> stop_hz - start_hz"
      unfolding step_def using assms by (intro int_div_le_self) simp_all
    then show "step < 256 ^ 8" using assms(4) by simp
  qed
  have ovf: "\<not> float_overflows start_hz" "\<not> float_overflows stop_hz"
    using assms by (auto intro!: not_float_overflows)
  have tb_start: "to_bytes start_hz 8 = Inr (map (\<lambda>i. word_of_int (start_hz div 256 ^ i)) [0..<8])"
    using assms by (intro to_bytes_ok) simp_all
  have tb_step: "to_bytes step 8 = Inr (map (\<lambda>i. word_of_int (step div 256 ^ i)) [0..<8])"
    using step by (intro to_bytes_ok)
  have tb_points: "to_bytes points 2 = Inr [word_of_int (points div 256 ^ 0), word_of_int (points div 256 ^ 1)]"
    using assms by (simp add: to_bytes_def upt_rec)
  have tb_one: "to_bytes 1 2 = Inr [word_of_int (1 div 256 ^ 0), word_of_int (1 div 256 ^ 1)]"
    by (simp add: to_bytes_def upt_rec)
  have lit: "(1 :: byte) = word_of_int (1 div 256 ^ 0)" "(0 :: byte) = word_of_int (1 div 256 ^ 1)"
    by simp_all
  have a: "setup_sweep l start_hz stop_hz points =
           (None, l\<lparr>sent := sent l @ write_frames 0x00 8 start_hz
                                   @ write_frames 0x10 8 step
                                   @ write_frames 0x20 2 points
                                   @ write_frames 0x22 2 1\<rparr>)"
    unfolding setup_sweep_def q tb_start tb_step tb_points tb_one Let_def sum.case
      write_registers_frames nth_Cons_0 One_nat_def nth_Cons_Suc
    using ovf write_two [of _ "0x20" points] write_two [of _ "0x22" 1]
    by simp
  have b: "setup_sweep_simple l start_hz stop_hz points =
           (None, l\<lparr>sent := sent l @ write_frames 0x00 8 start_hz
                                   @ write_frames 0x10 8 step
                                   @ write_frames 0x20 2 points
                                   @ write_frames 0x22 2 1\<rparr>)"
    unfolding setup_sweep_simple_def q tb_start tb_step tb_points Let_def sum.case
      write_registers_frames nth_Cons_0 One_nat_def nth_Cons_Suc
    using write_two [of _ "0x20" points] write_two [of _ "0x22" 1]
    by simp
  show ?thesis using a b by (simp add: step_def)
qed


section \<open>Decoding a record\<close>

lemma slice4:
  assumes "off + 4 \<le> length d"
  shows "py_slice d off (off + 4) = [d ! off, d ! (off + 1), d ! (off + 2), d ! (off + 3)]"
proof -
  have "take (Suc (Suc (Suc (Suc 0)))) (drop off d)
          = [d ! off, d ! (off + 1), d ! (off + 2), d ! (off + 3)]"
    using assms by (simp add: take_Suc_conv_app_nth numeral_3_eq_3)
  moreover have "(4::nat) = Suc (Suc (Suc (Suc 0)))" by simp
  ultimately show ?thesis by (simp only: py_slice_def add_diff_cancel_left')
qed

lemma slice2:
  assumes "off + 2 \<le> length d"
  shows "py_slice d off (off + 2) = [d ! off, d ! (off + 1)]"
proof -
  have "take (Suc (Suc 0)) (drop off d) = [d ! off, d ! (off + 1)]"
    using assms by (simp add: take_Suc_conv_app_nth)
  moreover have "(2::nat) = Suc (Suc 0)" by simp
  ultimately show ?thesis by (simp only: py_slice_def add_diff_cancel_left')
qed


lemma uint_byte_bounds: "0 \<le> uint (b :: byte)" "uint (b :: byte) < 256"
  using uint_lt2p [of b] by simp_all



lemma sint32_of_unsigned:
  assumes "0 \<le> v" "v < 2 ^ 32"
  shows "sint (word_of_int v :: 32 word) = (if v < 2 ^ 31 then v else v - 2 ^ 32)"
proof -
  have "sint (word_of_int v :: 32 word) = signed_take_bit 31 v"
    by (simp add: sint_sbintrunc')
  also have "\<dots> = (v + 2 ^ 31) mod 2 ^ 32 - 2 ^ 31"
    by (simp add: signed_take_bit_eq_take_bit_shift take_bit_eq_mod)
  also have "\<dots> = (if v < 2 ^ 31 then v else v - 2 ^ 32)"
  proof (cases "v < 2 ^ 31")
    case True
    then have "(v + 2 ^ 31) mod 2 ^ 32 = v + 2 ^ 31" using assms by simp
    then show ?thesis using True by simp
  next
    case False
    then have "(v + 2 ^ 31) mod 2 ^ 32 = (v + 2 ^ 31 - 2 ^ 32) mod 2 ^ 32"
      by (metis minus_mod_self2)
    also have "\<dots> = v + 2 ^ 31 - 2 ^ 32" using False assms by simp
    finally show ?thesis using False by simp
  qed
  finally show ?thesis .
qed

lemma cmod_int_guard:
  "cmod (Complex (of_int a) (of_int b)) > 1 / 10 ^ 6 \<longleftrightarrow> a \<noteq> 0 \<or> b \<noteq> 0"
proof (cases "a = 0 \<and> b = 0")
  case True
  then show ?thesis by (simp add: complex_norm)
next
  case False
  have "1 \<le> cmod (Complex (of_int a) (of_int b))"
  proof (cases "a = 0")
    case True
    with False have "b \<noteq> 0" by simp
    then have "1 \<le> \<bar>real_of_int b\<bar>" by (simp flip: of_int_abs)
    also have "\<dots> \<le> cmod (Complex (of_int a) (of_int b))"
      using abs_Im_le_cmod [of "Complex (of_int a) (of_int b)"] by simp
    finally show ?thesis .
  next
    case False
    then have "1 \<le> \<bar>real_of_int a\<bar>" by (simp flip: of_int_abs)
    also have "\<dots> \<le> cmod (Complex (of_int a) (of_int b))"
      using abs_Re_le_cmod [of "Complex (of_int a) (of_int b)"] by simp
    finally show ?thesis .
  qed
  then have "1 / 10 ^ 6 < cmod (Complex (of_int a) (of_int b))" by simp
  with False show ?thesis by auto
qed

lemma unpack_i32_at:
  assumes "off + 4 \<le> length d"
  shows "unpack_i32 (py_slice d off (off + 4)) = Inr (i32_le_at d off)"
proof -
  define v where "v = uint (d ! off) + 2 ^ 8 * uint (d ! (off + 1))
                        + 2 ^ 16 * uint (d ! (off + 2)) + 2 ^ 24 * uint (d ! (off + 3))"
  have v: "0 \<le> v" "v < 2 ^ 32"
    using uint_byte_bounds [of "d ! off"] uint_byte_bounds [of "d ! (off + 1)"]
      uint_byte_bounds [of "d ! (off + 2)"] uint_byte_bounds [of "d ! (off + 3)"]
    by (simp_all add: v_def)
  have "le_uint (py_slice d off (off + 4)) = v"
    unfolding slice4 [OF assms] by (simp add: le_uint_def v_def)
  moreover have "length (py_slice d off (off + 4)) = 4"
    unfolding slice4 [OF assms] by simp
  ultimately have "unpack_i32 (py_slice d off (off + 4)) = Inr (if v < 2 ^ 31 then v else v - 2 ^ 32)"
    by (simp add: unpack_i32_def Let_def)
  also have "(if v < 2 ^ 31 then v else v - 2 ^ 32) = sint (word_of_int v :: 32 word)"
    using sint32_of_unsigned [OF v] by simp
  finally show ?thesis by (simp add: i32_le_at_def v_def)
qed

lemma unpack_u16_at:
  assumes "off + 2 \<le> length d"
  shows "unpack_u16 (py_slice d off (off + 2)) = Inr (u16_le_at d off)"
  unfolding slice2 [OF assms] by (simp add: unpack_u16_def le_uint_def u16_le_at_def)

lemma bind_r_simps [simp]: "bind_r (Inr v) f = f v" "bind_r (Inl e) f = Inl e"
  by (simp_all add: bind_r_def)

lemma calibrate_div:
  "(if cmod reference > 1 / 10 ^ 6 then py_complex_div raw reference else Inr 0)
     = Inr (calibrate raw reference)"
  by (auto simp: py_complex_div_def calibrate_def)

lemma calibrate_pair:
  "(if cmod reference > 1 / 10 ^ 6
    then bind_r (py_complex_div a reference) (\<lambda>s11.
         bind_r (py_complex_div b reference) (\<lambda>s21. Inr (s11, s21)))
    else Inr (0, 0)) = Inr (calibrate a reference, calibrate b reference)"
  by (auto simp: py_complex_div_def calibrate_def)

lemma parse_fifo_body_32:
  assumes "length d = 32"
  shows "parse_fifo_body d =
    Inr (Some (let reference = Complex (of_int (i32_le_at d 0)) (of_int (i32_le_at d 4));
                   s11 = calibrate (Complex (of_int (i32_le_at d 8)) (of_int (i32_le_at d 12))) reference;
                   s21 = calibrate (Complex (of_int (i32_le_at d 16)) (of_int (i32_le_at d 20))) reference
               in \<lparr>freq_index = u16_le_at d 24, s11 = s11, s21 = s21,
                   s11_magnitude = cmod s11, s11_phase = Arg s11,
                   s21_magnitude = cmod s21, s21_phase = Arg s21,
                   raw_reference = cmod reference\<rparr>))"
proof -
  have u: "unpack_i32 (py_slice d 0 4) = Inr (i32_le_at d 0)"
    "unpack_i32 (py_slice d 4 8) = Inr (i32_le_at d 4)"
    "unpack_i32 (py_slice d 8 12) = Inr (i32_le_at d 8)"
    "unpack_i32 (py_slice d 12 16) = Inr (i32_le_at d 12)"
    "unpack_i32 (py_slice d 16 20) = Inr (i32_le_at d 16)"
    "unpack_i32 (py_slice d 20 24) = Inr (i32_le_at d 20)"
    "unpack_u16 (py_slice d 24 26) = Inr (u16_le_at d 24)"
    using assms unpack_i32_at [of 0 d] unpack_i32_at [of 4 d] unpack_i32_at [of 8 d]
      unpack_i32_at [of 12 d] unpack_i32_at [of 16 d] unpack_i32_at [of 20 d]
      unpack_u16_at [of 24 d]
    by simp_all
  show ?thesis
    unfolding parse_fifo_body_def u bind_r_simps Let_def calibrate_pair
    using assms by simp
qed

lemma parse_fifo_data_32:
  assumes "length d = 32"
  shows "parse_fifo_data d =
    Some (let reference = Complex (of_int (i32_le_at d 0)) (of_int (i32_le_at d 4));
              s11 = calibrate (Complex (of_int (i32_le_at d 8)) (of_int (i32_le_at d 12))) reference;
              s21 = calibrate (Complex (of_int (i32_le_at d 16)) (of_int (i32_le_at d 20))) reference
          in \<lparr>freq_index = u16_le_at d 24, s11 = s11, s21 = s21,
              s11_magnitude = cmod s11, s11_phase = Arg s11,
              s21_magnitude = cmod s21, s21_phase = Arg s21,
              raw_reference = cmod reference\<rparr>)"
  by (simp add: parse_fifo_data_def parse_fifo_body_32 [OF assms])

lemma parse_fifo_data_other: "length d \<noteq> 32 \<Longrightarrow> parse_fifo_data d = None"
  by (simp add: parse_fifo_data_def parse_fifo_body_def)

lemma parse_data_body_16:
  assumes "16 \<le> length d"
  shows "parse_data_body d =
    Inr (let s11 = calibrate (Complex (of_int (i32_le_at d 8)) (of_int (i32_le_at d 12)))
                             (Complex (of_int (i32_le_at d 0)) (of_int (i32_le_at d 4)))
         in \<lparr>m_s11 = s11, magnitude = cmod s11, phase = Arg s11\<rparr>)"
proof -
  have u: "unpack_i32 (py_slice d 0 4) = Inr (i32_le_at d 0)"
    "unpack_i32 (py_slice d 4 8) = Inr (i32_le_at d 4)"
    "unpack_i32 (py_slice d 8 12) = Inr (i32_le_at d 8)"
    "unpack_i32 (py_slice d 12 16) = Inr (i32_le_at d 12)"
    using assms unpack_i32_at [of 0 d] unpack_i32_at [of 4 d] unpack_i32_at [of 8 d]
      unpack_i32_at [of 12 d]
    by simp_all
  show ?thesis
    unfolding parse_data_body_def u bind_r_simps Let_def calibrate_div by simp
qed

lemma parse_data_16:
  assumes "16 \<le> length d"
  shows "parse_data d =
    Some (let s11 = calibrate (Complex (of_int (i32_le_at d 8)) (of_int (i32_le_at d 12)))
                              (Complex (of_int (i32_le_at d 0)) (of_int (i32_le_at d 4)))
          in \<lparr>m_s11 = s11, magnitude = cmod s11, phase = Arg s11\<rparr>)"
  by (simp add: parse_data_def parse_data_body_16 [OF assms])


lemma decode_chunks_total:
  assumes tot: "\<And>c. length c = 32 \<Longrightarrow> parse c \<noteq> None"
  shows "map Some (decode_chunks parse data) =
           map (\<lambda>k. parse (py_slice data (32 * k) (32 * k + 32))) [0..<length data div 32]"
proof -
  define q where "q = length data div 32"
  define g where "g = (\<lambda>k. parse (py_slice data (32 * k) (32 * k + 32)))"
  define f where "f = (\<lambda>points i.
              let chunk = py_slice data i (i + 32)
              in if length chunk = 32
                 then (case parse chunk of Some p \<Rightarrow> points @ [p] | None \<Rightarrow> points)
                 else points)"
  have len: "length (py_slice data (32 * k) (32 * k + 32)) = 32 \<longleftrightarrow> k < q" for k
    by (auto simp: py_slice_def q_def min_def)
  have step: "map Some (foldl f [] (map (\<lambda>k. 32 * k) [0..<n])) = map g [0..<min n q]" for n
  proof (induction n)
    case 0
    show ?case by simp
  next
    case (Suc n)
    show ?case
    proof (cases "n < q")
      case True
      then obtain p where p: "g n = Some p"
        using tot [of "py_slice data (32 * n) (32 * n + 32)"] len [of n] by (auto simp: g_def)
      have "f acc (32 * n) = acc @ [p]" for acc
        using p True len [of n] by (simp add: f_def g_def Let_def)
      then show ?thesis using Suc True p by (simp add: min_def)
    next
      case False
      then have "f acc (32 * n) = acc" for acc
        using len [of n] by (simp add: f_def Let_def)
      then show ?thesis using Suc False by (simp add: min_def)
    qed
  qed
  have "q \<le> (length data + 31) div 32" by (simp add: q_def div_le_mono)
  then have "min ((length data + 31) div 32) q = q" by simp
  then show ?thesis
    using step [of "(length data + 31) div 32"]
    by (simp add: decode_chunks_def chunk_starts_def f_def g_def q_def)
qed

lemma parse_fifo_data_total: "length c = 32 \<Longrightarrow> parse_fifo_data c \<noteq> None"
  by (simp add: parse_fifo_data_32 Let_def)

lemma parse_data_total: "length c = 32 \<Longrightarrow> parse_data c \<noteq> None"
  by (simp add: parse_data_16 Let_def)

lemma length_decode_chunks:
  assumes tot: "\<And>c. length c = 32 \<Longrightarrow> parse c \<noteq> None"
  shows "length (decode_chunks parse data) = length data div 32"
  using arg_cong [OF decode_chunks_total [of parse data, OF tot], of length] by simp


lemma i32_record_a:
  "i32_le_at record_a 0 = 1" "i32_le_at record_a 4 = 0" "i32_le_at record_a 8 = 2"
  "i32_le_at record_a 12 = 0" "i32_le_at record_a 16 = - 1" "i32_le_at record_a 20 = 3"
  "u16_le_at record_a 24 = 5" "length record_a = 32"
  by (simp_all add: i32_le_at_def u16_le_at_def record_a_def)

lemma i32_record_zero_ref:
  "i32_le_at record_zero_ref 0 = 0" "i32_le_at record_zero_ref 4 = 0" "i32_le_at record_zero_ref 8 = 2"
  "i32_le_at record_zero_ref 12 = 7" "i32_le_at record_zero_ref 16 = - 1" "i32_le_at record_zero_ref 20 = 3"
  "u16_le_at record_zero_ref 24 = 9" "length record_zero_ref = 32"
  by (simp_all add: i32_le_at_def u16_le_at_def record_zero_ref_def)


section \<open>The capture loop\<close>


lemma reply_after_send:
  "reply (l\<lparr>sent := sent l @ [c]\<rparr>) i = reply l (Suc i)"
  by (simp add: reply_def)

lemma reply_after_send_fun:
  "reply (l\<lparr>sent := sent l @ [c]\<rparr>) = (\<lambda>i. reply l (Suc i))"
  by (simp add: reply_def fun_eq_iff)

lemma capture_attempts_Suc:
  "capture_attempts (Suc r) e l acc =
     (if reply l 0 \<noteq> [] \<and> e * 32 \<le> int (length (acc @ reply l 0))
      then (acc @ reply l 0, l\<lparr>sent := sent l @ [readfifo 256]\<rparr>)
      else capture_attempts r e (l\<lparr>sent := sent l @ [readfifo 256]\<rparr>) (acc @ reply l 0))"
  by (simp add: send_command_def reply_def Let_def)

lemma concat_replies_Suc:
  "concat (map (reply l) [0..<Suc n]) = reply l 0 @ concat (map (\<lambda>i. reply l (Suc i)) [0..<n])"
  by (simp only: map_upt_Suc concat.simps)

lemma capture_attempts_gen:
  "\<exists>n\<le>r. (0 < r \<longrightarrow> 0 < n) \<and>
     capture_attempts r e l acc =
       (acc @ concat (map (reply l) [0..<n]), l\<lparr>sent := sent l @ replicate n (readfifo 256)\<rparr>) \<and>
     (n < r \<longrightarrow> reply l (n - 1) \<noteq> [] \<and>
                e * 32 \<le> int (length (acc @ concat (map (reply l) [0..<n])))) \<and>
     (\<forall>j. Suc j < n \<longrightarrow>
          reply l j = [] \<or> int (length (acc @ concat (map (reply l) [0..<Suc j]))) < e * 32) \<and>
     (int (length acc) < e * 32 \<longrightarrow>
        (\<forall>j. Suc j < n \<longrightarrow> int (length (acc @ concat (map (reply l) [0..<Suc j]))) < e * 32))"
proof (induction r arbitrary: l acc)
  case 0
  show ?case by simp
next
  case (Suc r)
  let ?l' = "l\<lparr>sent := sent l @ [readfifo 256]\<rparr>"
  let ?acc' = "acc @ reply l 0"
  show ?case
  proof (cases "reply l 0 \<noteq> [] \<and> e * 32 \<le> int (length ?acc')")
    case True
    then have "capture_attempts (Suc r) e l acc = (?acc', ?l')"
      by (subst capture_attempts_Suc) simp
    with True show ?thesis
      by (intro exI [of _ 1]) simp
  next
    case False
    then have rec: "capture_attempts (Suc r) e l acc = capture_attempts r e ?l' ?acc'"
      by (subst capture_attempts_Suc) auto
    from Suc.IH [of ?l' ?acc'] obtain n where n: "n \<le> r" "0 < r \<longrightarrow> 0 < n"
      and res: "capture_attempts r e ?l' ?acc' =
         (?acc' @ concat (map (reply ?l') [0..<n]),
          ?l'\<lparr>sent := sent ?l' @ replicate n (readfifo 256)\<rparr>)"
      and early: "n < r \<longrightarrow> reply ?l' (n - 1) \<noteq> [] \<and>
                e * 32 \<le> int (length (?acc' @ concat (map (reply ?l') [0..<n])))"
      and before: "\<forall>j. Suc j < n \<longrightarrow>
          reply ?l' j = [] \<or> int (length (?acc' @ concat (map (reply ?l') [0..<Suc j]))) < e * 32"
      and strict: "int (length ?acc') < e * 32 \<longrightarrow>
        (\<forall>j. Suc j < n \<longrightarrow> int (length (?acc' @ concat (map (reply ?l') [0..<Suc j]))) < e * 32)"
      by blast
    have shift: "?acc' @ concat (map (reply ?l') [0..<k]) = acc @ concat (map (reply l) [0..<Suc k])" for k
      by (simp only: concat_replies_Suc reply_after_send_fun append_assoc)
    have c1: "capture_attempts (Suc r) e l acc =
       (acc @ concat (map (reply l) [0..<Suc n]), l\<lparr>sent := sent l @ replicate (Suc n) (readfifo 256)\<rparr>)"
      unfolding rec res shift by simp
    have c2: "Suc n < Suc r \<longrightarrow> reply l (Suc n - 1) \<noteq> [] \<and>
                e * 32 \<le> int (length (acc @ concat (map (reply l) [0..<Suc n])))"
    proof
      assume "Suc n < Suc r"
      then have "n < r" by simp
      with n have "0 < n" by simp
      then have eq: "reply ?l' (n - 1) = reply l (Suc n - 1)"
        by (cases n) (simp_all add: reply_after_send)
      from early \<open>n < r\<close> have a: "reply ?l' (n - 1) \<noteq> []"
        and b: "e * 32 \<le> int (length (?acc' @ concat (map (reply ?l') [0..<n])))"
        by blast+
      from a have "reply l (Suc n - 1) \<noteq> []" unfolding eq .
      moreover from b have "e * 32 \<le> int (length (acc @ concat (map (reply l) [0..<Suc n])))"
        unfolding shift .
      ultimately show "reply l (Suc n - 1) \<noteq> [] \<and>
                e * 32 \<le> int (length (acc @ concat (map (reply l) [0..<Suc n])))" ..
    qed
    have c3: "reply l j = [] \<or> int (length (acc @ concat (map (reply l) [0..<Suc j]))) < e * 32"
      if "Suc j < Suc n" for j
    proof (cases j)
      case 0
      then show ?thesis using False by auto
    next
      case (Suc j')
      then have "Suc j' < n" using that by simp
      with before have "reply ?l' j' = [] \<or>
          int (length (?acc' @ concat (map (reply ?l') [0..<Suc j']))) < e * 32" by blast
      then show ?thesis unfolding shift reply_after_send Suc .
    qed
    have c4: "int (length (acc @ concat (map (reply l) [0..<Suc j]))) < e * 32"
      if "Suc j < Suc n" "int (length acc) < e * 32" for j
    proof -
      have small: "int (length ?acc') < e * 32" using False that(2) by (cases "reply l 0 = []") auto
      show ?thesis
      proof (cases j)
        case 0
        then show ?thesis using small by simp
      next
        case (Suc j')
        then have "Suc j' < n" using that by simp
        with strict small have "int (length (?acc' @ concat (map (reply ?l') [0..<Suc j']))) < e * 32"
          by blast
        then show ?thesis unfolding shift Suc .
      qed
    qed
    show ?thesis
      using n(1) c1 c2 c3 c4 by (intro exI [of _ "Suc n"]) blast
  qed
qed


lemma capture_silent:
  assumes "\<forall>i<5. reply (clear_fifo l) i = []"
  shows "fst (capture_data_smart l expected_points) = ([], [])"
proof -
  obtain n where n: "n \<le> 5"
    and res: "capture_attempts 5 expected_points (clear_fifo l) [] =
       ([] @ concat (map (reply (clear_fifo l)) [0..<n]),
        (clear_fifo l)\<lparr>sent := sent (clear_fifo l) @ replicate n (readfifo 256)\<rparr>)"
    using capture_attempts_gen [of 5 expected_points "clear_fifo l" "[]"] by blast
  have "concat (map (reply (clear_fifo l)) [0..<n]) = []"
    using assms n by simp
  then show ?thesis
    by (simp add: capture_data_smart_def Let_def res decode_chunks_def chunk_starts_def take_py_def)
qed


section \<open>The frequency axis\<close>














section \<open>The two-port matrix\<close>


lemma assign_column_map:
  assumes "length column = n"
  shows "assign_column (map f [0..<n]) i j column =
           Inr (map (\<lambda>k. (f k)[i := (f k ! i)[j := column ! k]]) [0..<n])"
  using assms by (simp add: assign_column_def cong: map_cong)

lemma zeros_map: "replicate n x = map (\<lambda>k. x) [0..<n]"
  by (simp add: map_replicate_const)

lemma s_matrix_filled:
  assumes "length c11 = n" "length c21 = n" "length c12 = n" "length c22 = n"
  shows "bind_r (assign_column (replicate n [[0, 0], [0, 0]]) 0 0 c11)
           (\<lambda>m1. bind_r (assign_column m1 1 0 c21)
           (\<lambda>m2. bind_r (assign_column m2 0 1 c12)
           (\<lambda>m3. assign_column m3 1 1 c22)))
         = Inr (map (\<lambda>k. [[c11 ! k, c12 ! k], [c21 ! k, c22 ! k]]) [0..<n])"
  unfolding zeros_map
  by (simp add: assign_column_map assms bind_r_def)

lemma process_rows:
  assumes "rows \<noteq> []"
  shows "process_measurement_data m rows =
     (True, m\<lparr>frequencies := map fst rows,
              s_params := [''S11'' \<mapsto> map (\<lambda>r. fst (snd r)) rows,
                           ''S21'' \<mapsto> map (\<lambda>r. snd (snd r)) rows,
                           ''S12'' \<mapsto> map (\<lambda>r. snd (snd r)) rows,
                           ''S22'' \<mapsto> map (\<lambda>r. fst (snd r)) rows]\<rparr>)"
  using assms by (simp add: process_measurement_data_def Let_def)

lemma save_after_process:
  assumes "rows \<noteq> []"
  shows "save_s2p_matrix (snd (process_measurement_data m rows)) =
     Some (map (\<lambda>k. [[fst (snd (rows ! k)), snd (snd (rows ! k))],
                      [snd (snd (rows ! k)), fst (snd (rows ! k))]]) [0..<length rows])"
proof -
  let ?c11 = "map (\<lambda>r. fst (snd r)) rows" and ?c21 = "map (\<lambda>r. snd (snd r)) rows"
  have filled: "bind_r (assign_column (replicate (length rows) [[0, 0], [0, 0]]) 0 0 ?c11)
           (\<lambda>m1. bind_r (assign_column m1 1 0 ?c21)
           (\<lambda>m2. bind_r (assign_column m2 0 1 ?c21)
           (\<lambda>m3. assign_column m3 1 1 ?c11)))
         = Inr (map (\<lambda>k. [[?c11 ! k, ?c21 ! k], [?c21 ! k, ?c11 ! k]]) [0..<length rows])"
    by (rule s_matrix_filled) simp_all
  have "save_s2p_matrix (snd (process_measurement_data m rows)) =
          Some (map (\<lambda>k. [[?c11 ! k, ?c21 ! k], [?c21 ! k, ?c11 ! k]]) [0..<length rows])"
    using assms filled [unfolded One_nat_def]
    by (simp add: process_rows save_s2p_matrix_def)
  also have "map (\<lambda>k. [[?c11 ! k, ?c21 ! k], [?c21 ! k, ?c11 ! k]]) [0..<length rows] =
     map (\<lambda>k. [[fst (snd (rows ! k)), snd (snd (rows ! k))],
                      [snd (snd (rows ! k)), fst (snd (rows ! k))]]) [0..<length rows]"
    by (simp cong: map_cong)
  finally show ?thesis .
qed


section \<open>The claims of the specification\<close>

text \<open>
  C1, as amended. For a start frequency that fits in eight bytes, a point count from
  2 that fits in two bytes and a span \<open>stop_hz - start_hz\<close> that is positive and
  below \<open>2 ^ 53\<close>, both \<^verbatim>\<open>setup_sweep\<close> methods end without an exception and write
  exactly these WRITE frames, in this order: the 8 little-endian bytes of \<open>start_hz\<close>
  to \<open>0x00..0x07\<close>, the 8 little-endian bytes of the integer quotient
  \<open>(stop_hz - start_hz) div (points - 1)\<close> to \<open>0x10..0x17\<close>, the 2 little-endian
  bytes of \<open>points\<close> to \<open>0x20..0x21\<close> and the 2 little-endian bytes of 1 to
  \<open>0x22..0x23\<close>.
\<close>

theorem sweep_frames:
  assumes "0 \<le> start_hz" "start_hz < 2 ^ 64" "start_hz < stop_hz"
    and "stop_hz - start_hz < 2 ^ 53" "2 \<le> points" "points < 2 ^ 16"
  shows "setup_sweep l start_hz stop_hz points =
           (None, l\<lparr>sent := sent l @ write_frames 0x00 8 start_hz
                                   @ write_frames 0x10 8 ((stop_hz - start_hz) div (points - 1))
                                   @ write_frames 0x20 2 points
                                   @ write_frames 0x22 2 1\<rparr>)
       \<and> setup_sweep_simple l start_hz stop_hz points = setup_sweep l start_hz stop_hz points"
  using assms by (rule setup_sweep_frames)

theorem sweep_frames_witness:
  "fst (setup_sweep silent_link 2000000 50000000 101) = None \<and>
   sent (snd (setup_sweep silent_link 2000000 50000000 101)) =
     write_frames 0x00 8 2000000 @ write_frames 0x10 8 480000 @ write_frames 0x20 2 101
       @ write_frames 0x22 2 1 \<and>
   sent (snd (setup_sweep_simple silent_link 2000000 50000000 101)) =
     write_frames 0x00 8 2000000 @ write_frames 0x10 8 480000 @ write_frames 0x20 2 101
       @ write_frames 0x22 2 1"
  using sweep_frames [of 2000000 50000000 101 silent_link]
  by (simp add: silent_link_def)

text \<open>
  C1 as stated, for every \<open>points \<ge> 2\<close> and \<open>stop_hz > start_hz\<close>, fails. With
  \<open>points = 65536\<close> the call raises OverflowError at \<^verbatim>\<open>points.to_bytes(2, 'little')\<close>
  after 16 frames; with \<open>start_hz = 2 ^ 64\<close> it raises before any frame; with
  \<open>stop_hz - start_hz = 2 ^ 64 - 1\<close> and two points the binary64 quotient is
  \<open>2 ^ 64\<close> and the call raises after the 8 frames of the start frequency; and with
  a span of \<open>2 ^ 54 - 1\<close> over 16384 steps the step written is \<open>2 ^ 40\<close>, one more
  than the integer quotient.
\<close>

theorem sweep_frames_unbounded_counterexample:
  "fst (setup_sweep silent_link 0 65535 65536) = Some OverflowError \<and>
   sent (snd (setup_sweep silent_link 0 65535 65536)) =
     write_frames 0x00 8 0 @ write_frames 0x10 8 1 \<and>
   sent (snd (setup_sweep silent_link 0 65535 65536)) \<noteq>
     write_frames 0x00 8 0 @ write_frames 0x10 8 1 @ write_frames 0x20 2 65536
       @ write_frames 0x22 2 1 \<and>
   fst (setup_sweep silent_link (2 ^ 64) (2 ^ 64 + 1) 2) = Some OverflowError \<and>
   sent (snd (setup_sweep silent_link (2 ^ 64) (2 ^ 64 + 1) 2)) = [] \<and>
   fst (setup_sweep silent_link 0 (2 ^ 64 - 1) 2) = Some OverflowError \<and>
   sent (snd (setup_sweep silent_link 0 (2 ^ 64 - 1) 2)) = write_frames 0x00 8 0 \<and>
   sent (snd (setup_sweep silent_link 0 (2 ^ 54 - 1) 16385)) =
     write_frames 0x00 8 0 @ write_frames 0x10 8 (2 ^ 40) @ write_frames 0x20 2 16385
       @ write_frames 0x22 2 1 \<and>
   (2 ^ 54 - 1) div (16385 - 1) = (2 ^ 40 - 1 :: int)"
  by code_simp

text \<open>
  C6, as amended. \<^verbatim>\<open>setup_sweep(1_000_000, 100_000_000, 11)\<close> computes the step
  9_900_000 and writes these twenty frames; the start frequency goes to
  \<open>0x00..0x07\<close> as \<open>40 42 0F 00 00 00 00 00\<close>, the little-endian bytes of 1_000_000.
\<close>

theorem configure_example:
  "map_sum id py_int (sweep_step 1000000 100000000 11) = Inr 9900000 \<and>
   fst (setup_sweep l 1000000 100000000 11) = None \<and>
   sent (snd (setup_sweep l 1000000 100000000 11)) = sent l @
    [[0x20, 0x00, 0x40], [0x20, 0x01, 0x42], [0x20, 0x02, 0x0F], [0x20, 0x03, 0x00],
     [0x20, 0x04, 0x00], [0x20, 0x05, 0x00], [0x20, 0x06, 0x00], [0x20, 0x07, 0x00],
     [0x20, 0x10, 0xE0], [0x20, 0x11, 0x0F], [0x20, 0x12, 0x97], [0x20, 0x13, 0x00],
     [0x20, 0x14, 0x00], [0x20, 0x15, 0x00], [0x20, 0x16, 0x00], [0x20, 0x17, 0x00],
     [0x20, 0x20, 0x0B], [0x20, 0x21, 0x00], [0x20, 0x22, 0x01], [0x20, 0x23, 0x00]]"
proof -
  have "map_sum id py_int (sweep_step 1000000 100000000 11) = Inr 9900000"
    by code_simp
  then show ?thesis
    using setup_sweep_frames [of 1000000 100000000 11 l]
    by (simp add: write_frames_def upt_rec)
qed

text \<open>
  C6 as stated fails: \<open>00 CA 9A 3B 00 00 00 00\<close> is the encoding of 1_000_000_000.
  The frames written to \<open>0x00..0x07\<close> are not those, and no frame writes \<open>0xCA\<close> to
  address \<open>0x01\<close>.
\<close>

theorem configure_example_counterexample:
  "take 8 (sent (snd (setup_sweep silent_link 1000000 100000000 11))) \<noteq>
    [[0x20, 0x00, 0x00], [0x20, 0x01, 0xCA], [0x20, 0x02, 0x9A], [0x20, 0x03, 0x3B],
     [0x20, 0x04, 0x00], [0x20, 0x05, 0x00], [0x20, 0x06, 0x00], [0x20, 0x07, 0x00]] \<and>
   [0x20, 0x01, 0xCA] \<notin> set (sent (snd (setup_sweep silent_link 1000000 100000000 11))) \<and>
   write_frames 0x00 8 1000000000 =
    [[0x20, 0x00, 0x00], [0x20, 0x01, 0xCA], [0x20, 0x02, 0x9A], [0x20, 0x03, 0x3B],
     [0x20, 0x04, 0x00], [0x20, 0x05, 0x00], [0x20, 0x06, 0x00], [0x20, 0x07, 0x00]]"
  by code_simp

text \<open>
  C7, as amended. The rejection is the caller's: choice 1 of the menu of
  \<^verbatim>\<open>nanovna_original.main\<close> returns to the menu without calling \<^verbatim>\<open>setup_sweep\<close>
  when the start is not below the stop or when there are fewer than 2 points, so the
  link is as it was and no frame has been written.
\<close>

theorem invalid_sweep_rejected_by_caller:
  assumes "stop_mhz \<le> start_mhz \<or> points < 2"
  shows "configure_and_measure l start_mhz stop_mhz points = l"
  using assms by (auto simp: configure_and_measure_def)

theorem invalid_sweep_rejected_by_caller_witness:
  "sent (configure_and_measure silent_link 100 1 11) = [] \<and>
   sent (configure_and_measure silent_link 1 100 1) = []"
  using invalid_sweep_rejected_by_caller [of 1 100 11 silent_link]
    invalid_sweep_rejected_by_caller [of 100 1 1 silent_link]
  by (simp add: silent_link_def)

text \<open>
  C7 as stated fails for \<^verbatim>\<open>setup_sweep\<close> itself, which validates nothing: with one
  point it takes the step 0, with equal bounds the step is 0 as well, and in both
  cases all twenty frames are written.
\<close>

theorem setup_sweep_unvalidated_counterexample:
  "fst (setup_sweep silent_link 0 10 1) = None \<and>
   sent (snd (setup_sweep silent_link 0 10 1)) =
     write_frames 0x00 8 0 @ write_frames 0x10 8 0 @ write_frames 0x20 2 1
       @ write_frames 0x22 2 1 \<and>
   fst (setup_sweep silent_link 10 10 2) = None \<and>
   sent (snd (setup_sweep silent_link 10 10 2)) =
     write_frames 0x00 8 10 @ write_frames 0x10 8 0 @ write_frames 0x20 2 2
       @ write_frames 0x22 2 1 \<and>
   length (sent (snd (setup_sweep_simple silent_link 0 10 1))) = 20"
  by code_simp

text \<open>
  C2. A record of exactly 32 bytes is decoded into a sample. Its frequency index is the
  little-endian unsigned 16-bit integer at offset 24; the six little-endian signed
  32-bit integers at offsets 0, 4, 8, 12, 16 and 20 are the real and imaginary parts of
  the forward reference and of the two reverse channels: the diagnostic magnitude is
  that of the reference, and when the magnitude of the reference exceeds \<open>1e-6\<close> then
  S11 is the first reverse channel divided by the reference and S21 the second reverse
  channel divided by the reference.
\<close>

theorem record_decoding:
  assumes "length d = 32"
  shows "\<exists>s. parse_fifo_data d = Some s \<and> freq_index s = u16_le_at d 24 \<and>
             raw_reference s = cmod (Complex (of_int (i32_le_at d 0)) (of_int (i32_le_at d 4))) \<and>
             (cmod (Complex (of_int (i32_le_at d 0)) (of_int (i32_le_at d 4))) > 1 / 10 ^ 6 \<longrightarrow>
                s11 s = Complex (of_int (i32_le_at d 8)) (of_int (i32_le_at d 12))
                          / Complex (of_int (i32_le_at d 0)) (of_int (i32_le_at d 4)) \<and>
                s21 s = Complex (of_int (i32_le_at d 16)) (of_int (i32_le_at d 20))
                          / Complex (of_int (i32_le_at d 0)) (of_int (i32_le_at d 4)))"
  by (simp add: parse_fifo_data_32 [OF assms] Let_def calibrate_def)

theorem record_decoding_witness:
  "\<exists>s. parse_fifo_data record_a = Some s \<and> freq_index s = 5 \<and> raw_reference s = 1 \<and>
       s11 s = Complex 2 0 \<and> s21 s = Complex (- 1) 3"
proof -
  have "Complex 1 0 = 1" by (simp add: Complex_eq_1)
  then show ?thesis
    using record_decoding [of record_a] by (simp add: i32_record_a complex_norm)
qed

text \<open>
  C4. For a record of 32 bytes whose forward reference has magnitude at most \<open>1e-6\<close>,
  the decoded sample has S11 and S21 equal to \<open>0+0i\<close>, whatever the reverse channels
  hold; \<^verbatim>\<open>_parse_data\<close> of the other script gives S11 equal to \<open>0+0i\<close> as well.
  Such a reference is \<open>0+0i\<close>: both of its integer components are zero.
\<close>

theorem zero_reference_guard:
  assumes "length d = 32"
    and "cmod (Complex (of_int (i32_le_at d 0)) (of_int (i32_le_at d 4))) \<le> 1 / 10 ^ 6"
  shows "(\<exists>s. parse_fifo_data d = Some s \<and> s11 s = 0 \<and> s21 s = 0) \<and>
         (\<exists>m. parse_data d = Some m \<and> m_s11 m = 0) \<and>
         i32_le_at d 0 = 0 \<and> i32_le_at d 4 = 0"
  using assms(2) cmod_int_guard [of "i32_le_at d 0" "i32_le_at d 4"]
  by (simp add: parse_fifo_data_32 [OF assms(1)] parse_data_16 assms(1) Let_def calibrate_def)

theorem zero_reference_guard_witness:
  "Complex (of_int (i32_le_at record_zero_ref 0)) (of_int (i32_le_at record_zero_ref 4)) = 0 \<and>
   Complex (of_int (i32_le_at record_zero_ref 8)) (of_int (i32_le_at record_zero_ref 12)) = Complex 2 7 \<and>
   (\<exists>s. parse_fifo_data record_zero_ref = Some s \<and> s11 s = 0 \<and> s21 s = 0) \<and>
   (\<exists>m. parse_data record_zero_ref = Some m \<and> m_s11 m = 0)"
  using zero_reference_guard [of record_zero_ref]
  by (simp add: i32_record_zero_ref complex_norm Complex_eq_0)

text \<open>
  C10. On a chunk of exactly 32 bytes the body of \<^verbatim>\<open>_parse_fifo_data\<close> raises
  nothing and returns a sample, and so does the body of \<^verbatim>\<open>_parse_data\<close>;
  \<^verbatim>\<open>_parse_fifo_data\<close> returns \<^verbatim>\<open>None\<close> exactly for the chunks whose length is
  not 32.
\<close>

theorem decode_total:
  "(parse_fifo_data c = None \<longleftrightarrow> length c \<noteq> 32) \<and>
   (length c = 32 \<longrightarrow> (\<exists>s. parse_fifo_body c = Inr (Some s)) \<and> (\<exists>m. parse_data_body c = Inr m))"
  using parse_fifo_data_total [of c] parse_fifo_data_other [of c]
  by (auto simp: parse_fifo_body_32 parse_data_body_16)

theorem decode_total_witness:
  "parse_fifo_data record_a \<noteq> None \<and> (\<exists>s. parse_fifo_body record_a = Inr (Some s)) \<and>
   (\<exists>m. parse_data_body record_a = Inr m) \<and> parse_fifo_data (take 31 record_a) = None"
  using decode_total [of record_a] decode_total [of "take 31 record_a"]
  by (simp add: i32_record_a)

text \<open>
  C3. Decoding a buffer gives one sample for each complete chunk of 32 bytes, in
  order, the \<open>k\<close>-th sample being the decoding of bytes \<open>32 k .. 32 k + 31\<close>; bytes
  after the last complete chunk are dropped. A buffer of 64 bytes gives 2 samples, and
  a buffer of 70 bytes gives the 2 samples of its first 64 bytes.
\<close>

theorem decode_partition:
  "map Some (decode_chunks parse_fifo_data data) =
     map (\<lambda>k. parse_fifo_data (py_slice data (32 * k) (32 * k + 32))) [0..<length data div 32] \<and>
   map Some (decode_chunks parse_data data) =
     map (\<lambda>k. parse_data (py_slice data (32 * k) (32 * k + 32))) [0..<length data div 32] \<and>
   length (decode_chunks parse_fifo_data data) = length data div 32 \<and>
   length (decode_chunks parse_data data) = length data div 32 \<and>
   (length data = 64 \<longrightarrow> length (decode_chunks parse_fifo_data data) = 2) \<and>
   (length data = 70 \<longrightarrow> length (decode_chunks parse_fifo_data data) = 2 \<and>
      decode_chunks parse_fifo_data data = decode_chunks parse_fifo_data (take 64 data))"
proof -
  have a: "map Some (decode_chunks parse_fifo_data xs) =
     map (\<lambda>k. parse_fifo_data (py_slice xs (32 * k) (32 * k + 32))) [0..<length xs div 32]" for xs
    by (rule decode_chunks_total) (rule parse_fifo_data_total)
  have b: "map Some (decode_chunks parse_data data) =
     map (\<lambda>k. parse_data (py_slice data (32 * k) (32 * k + 32))) [0..<length data div 32]"
    by (rule decode_chunks_total) (rule parse_data_total)
  have la: "length (decode_chunks parse_fifo_data xs) = length xs div 32" for xs
    by (rule length_decode_chunks) (rule parse_fifo_data_total)
  have lb: "length (decode_chunks parse_data data) = length data div 32"
    by (rule length_decode_chunks) (rule parse_data_total)
  have c: "decode_chunks parse_fifo_data data = decode_chunks parse_fifo_data (take 64 data)"
    if "length data = 70"
  proof -
    have "py_slice (take 64 data) (32 * k) (32 * k + 32) = py_slice data (32 * k) (32 * k + 32)"
      if "k < 2" for k
      using that \<open>length data = 70\<close>
      by (auto simp: py_slice_def less_Suc_eq numeral_2_eq_2 take_drop min_def intro!: nth_equalityI)
    then have "map Some (decode_chunks parse_fifo_data (take 64 data)) =
               map Some (decode_chunks parse_fifo_data data)"
      using that by (simp add: a)
    then show ?thesis by (simp add: inj_map_eq_map)
  qed
  show ?thesis using a b la lb c by simp
qed

theorem decode_partition_witness:
  "length (decode_chunks parse_fifo_data (record_a @ record_zero_ref)) = 2 \<and>
   length (decode_chunks parse_fifo_data (record_a @ record_zero_ref @ [1, 2, 3, 4, 5, 6])) = 2 \<and>
   decode_chunks parse_fifo_data (record_a @ record_zero_ref @ [1, 2, 3, 4, 5, 6]) =
     decode_chunks parse_fifo_data (take 64 (record_a @ record_zero_ref @ [1, 2, 3, 4, 5, 6])) \<and>
   length (decode_chunks parse_data (record_a @ record_zero_ref @ [1, 2, 3, 4, 5, 6])) = 2"
  using decode_partition [of "record_a @ record_zero_ref"]
    decode_partition [of "record_a @ record_zero_ref @ [1, 2, 3, 4, 5, 6]"]
  by (simp add: i32_record_a i32_record_zero_ref)


text \<open>
  C5. The capture loop is a recursion on the number of attempts that remain, so it
  returns for every transport. From any link and for any expected point count it
  issues \<open>n\<close> READFIFO commands with \<open>1 \<le> n \<le> 5\<close> and returns the concatenation of
  the \<open>n\<close> replies. It stops before the fifth read only when a read brought bytes and
  the buffer then held at least \<open>expected_points * 32\<close> bytes, and no read before the
  last one did so; for a positive \<open>expected_points\<close> the buffer was below the target
  after every read before the last one. When all five reads return nothing, five
  reads are made and the buffer is empty, and \<^verbatim>\<open>capture_data_smart\<close> returns no
  frequencies and no samples.
\<close>

theorem capture_bounded:
  "(\<exists>n. 1 \<le> n \<and> n \<le> 5 \<and>
     capture_attempts 5 expected_points l [] =
       (concat (map (reply l) [0..<n]), l\<lparr>sent := sent l @ replicate n (readfifo 256)\<rparr>) \<and>
     (n < 5 \<longrightarrow> reply l (n - 1) \<noteq> [] \<and>
                expected_points * 32 \<le> int (length (concat (map (reply l) [0..<n])))) \<and>
     (\<forall>j. Suc j < n \<longrightarrow>
          reply l j = [] \<or> int (length (concat (map (reply l) [0..<Suc j]))) < expected_points * 32) \<and>
     (0 < expected_points \<longrightarrow>
        (\<forall>j. Suc j < n \<longrightarrow> int (length (concat (map (reply l) [0..<Suc j]))) < expected_points * 32)) \<and>
     ((\<forall>i<5. reply l i = []) \<longrightarrow> n = 5 \<and> concat (map (reply l) [0..<n]) = [])) \<and>
   ((\<forall>i<5. reply (clear_fifo l) i = []) \<longrightarrow> fst (capture_data_smart l expected_points) = ([], []))"
proof -
  obtain n where n: "n \<le> 5" "0 < n"
    and res: "capture_attempts 5 expected_points l [] =
       ([] @ concat (map (reply l) [0..<n]), l\<lparr>sent := sent l @ replicate n (readfifo 256)\<rparr>)"
    and early: "n < 5 \<longrightarrow> reply l (n - 1) \<noteq> [] \<and>
                expected_points * 32 \<le> int (length ([] @ concat (map (reply l) [0..<n])))"
    and before: "\<forall>j. Suc j < n \<longrightarrow>
          reply l j = [] \<or> int (length ([] @ concat (map (reply l) [0..<Suc j]))) < expected_points * 32"
    and strict: "int (length ([] :: byte list)) < expected_points * 32 \<longrightarrow>
        (\<forall>j. Suc j < n \<longrightarrow> int (length ([] @ concat (map (reply l) [0..<Suc j]))) < expected_points * 32)"
    using capture_attempts_gen [of 5 expected_points l "[]"] by auto
  have silent: "n = 5 \<and> concat (map (reply l) [0..<n]) = []" if "\<forall>i<5. reply l i = []"
  proof -
    have "n = 5"
    proof (rule ccontr)
      assume "n \<noteq> 5"
      with n have "n < 5" "n - 1 < 5" by simp_all
      with early that show False by blast
    qed
    with that show ?thesis by simp
  qed
  have "1 \<le> n" using n by simp
  moreover have "0 < expected_points \<longrightarrow>
        (\<forall>j. Suc j < n \<longrightarrow> int (length (concat (map (reply l) [0..<Suc j]))) < expected_points * 32)"
    using strict by (simp only: append_Nil list.size of_nat_0) simp
  ultimately have "1 \<le> n \<and> n \<le> 5 \<and>
     capture_attempts 5 expected_points l [] =
       (concat (map (reply l) [0..<n]), l\<lparr>sent := sent l @ replicate n (readfifo 256)\<rparr>) \<and>
     (n < 5 \<longrightarrow> reply l (n - 1) \<noteq> [] \<and>
                expected_points * 32 \<le> int (length (concat (map (reply l) [0..<n])))) \<and>
     (\<forall>j. Suc j < n \<longrightarrow>
          reply l j = [] \<or> int (length (concat (map (reply l) [0..<Suc j]))) < expected_points * 32) \<and>
     (0 < expected_points \<longrightarrow>
        (\<forall>j. Suc j < n \<longrightarrow> int (length (concat (map (reply l) [0..<Suc j]))) < expected_points * 32)) \<and>
     ((\<forall>i<5. reply l i = []) \<longrightarrow> n = 5 \<and> concat (map (reply l) [0..<n]) = [])"
    using n(1) res early before silent by (simp only: append_Nil) blast
  then show ?thesis using capture_silent [of l expected_points] by blast
qed

theorem capture_bounded_witness:
  "fst (capture_attempts 5 11 silent_link []) = [] \<and>
   sent (snd (capture_attempts 5 11 silent_link [])) = replicate 5 [0x18, 0x30, 0x00, 0x01] \<and>
   fst (capture_data_smart silent_link 11) = ([], []) \<and>
   fst (capture_attempts 5 1 slow_link []) = record_a \<and>
   sent (snd (capture_attempts 5 1 slow_link [])) = replicate 3 [0x18, 0x30, 0x00, 0x01]"
proof -
  have h: "\<forall>i<5. reply silent_link i = []" "\<forall>i<5. reply (clear_fifo silent_link) i = []"
    by (simp_all add: reply_def silent_link_def clear_fifo_def send_command_def)
  have cmd: "readfifo 256 = [0x18, 0x30, 0x00, 0x01]" by (simp add: readfifo_def)
  from capture_bounded [of 11 silent_link] h obtain n where "n = 5"
    and "capture_attempts 5 11 silent_link [] =
       (concat (map (reply silent_link) [0..<n]),
        silent_link\<lparr>sent := sent silent_link @ replicate n (readfifo 256)\<rparr>)"
    and "concat (map (reply silent_link) [0..<n]) = []"
    and smart: "fst (capture_data_smart silent_link 11) = ([], [])"
    by blast
  then have "fst (capture_attempts 5 11 silent_link []) = []"
    and "sent (snd (capture_attempts 5 11 silent_link [])) = replicate 5 [0x18, 0x30, 0x00, 0x01]"
    by (simp_all add: silent_link_def cmd)
  moreover have "fst (capture_attempts 5 1 slow_link []) = record_a \<and>
   sent (snd (capture_attempts 5 1 slow_link [])) = replicate 3 [0x18, 0x30, 0x00, 0x01]"
    by code_simp
  ultimately show ?thesis using smart by simp
qed








text \<open>
  C9. After a table with at least one row has been processed, the stored S12 sequence
  is the S21 sequence and the stored S22 sequence is the S11 sequence, element by
  element, and the matrix built for the Touchstone file has, at every frequency index
  \<open>k\<close>, S11 at \<open>[0,0]\<close>, S21 at \<open>[1,0]\<close>, the same S21 value at \<open>[0,1]\<close> and the same
  S11 value at \<open>[1,1]\<close>.
\<close>

theorem reciprocal_entries:
  assumes "rows \<noteq> []"
  shows "\<exists>m'. process_measurement_data m rows = (True, m') \<and>
      s_params m' ''S11'' = Some (map (\<lambda>r. fst (snd r)) rows) \<and>
      s_params m' ''S21'' = Some (map (\<lambda>r. snd (snd r)) rows) \<and>
      s_params m' ''S12'' = s_params m' ''S21'' \<and>
      s_params m' ''S22'' = s_params m' ''S11'' \<and>
      (\<exists>s_matrix. save_s2p_matrix m' = Some s_matrix \<and> length s_matrix = length rows \<and>
         (\<forall>k<length rows.
            s_matrix ! k ! 0 ! 0 = fst (snd (rows ! k)) \<and>
            s_matrix ! k ! 1 ! 0 = snd (snd (rows ! k)) \<and>
            s_matrix ! k ! 0 ! 1 = snd (snd (rows ! k)) \<and>
            s_matrix ! k ! 1 ! 1 = fst (snd (rows ! k))))"
proof -
  let ?m' = "snd (process_measurement_data m rows)"
  have p: "process_measurement_data m rows = (True, ?m')"
    by (simp add: process_rows [OF assms])
  have s: "s_params ?m' ''S11'' = Some (map (\<lambda>r. fst (snd r)) rows)"
    "s_params ?m' ''S21'' = Some (map (\<lambda>r. snd (snd r)) rows)"
    "s_params ?m' ''S12'' = Some (map (\<lambda>r. snd (snd r)) rows)"
    "s_params ?m' ''S22'' = Some (map (\<lambda>r. fst (snd r)) rows)"
    by (simp_all add: process_rows [OF assms])
  show ?thesis
    using p s save_after_process [OF assms, of m]
    by (intro exI [of _ ?m']) simp
qed

theorem reciprocal_entries_witness:
  "\<exists>m'. process_measurement_data new_measurement two_rows = (True, m') \<and>
      s_params m' ''S12'' = Some [Complex 3 4, Complex 7 8] \<and>
      s_params m' ''S22'' = Some [Complex 1 2, Complex 5 6] \<and>
      save_s2p_matrix m' = Some [[[Complex 1 2, Complex 3 4], [Complex 3 4, Complex 1 2]],
                                 [[Complex 5 6, Complex 7 8], [Complex 7 8, Complex 5 6]]]"
proof -
  obtain m' s_matrix where m': "process_measurement_data new_measurement two_rows = (True, m')"
    and s: "s_params m' ''S11'' = Some (map (\<lambda>r. fst (snd r)) two_rows)"
      "s_params m' ''S21'' = Some (map (\<lambda>r. snd (snd r)) two_rows)"
      "s_params m' ''S12'' = s_params m' ''S21''" "s_params m' ''S22'' = s_params m' ''S11''"
    and mat: "save_s2p_matrix m' = Some s_matrix" "length s_matrix = length two_rows"
      "\<forall>k<length two_rows.
            s_matrix ! k ! 0 ! 0 = fst (snd (two_rows ! k)) \<and>
            s_matrix ! k ! 1 ! 0 = snd (snd (two_rows ! k)) \<and>
            s_matrix ! k ! 0 ! 1 = snd (snd (two_rows ! k)) \<and>
            s_matrix ! k ! 1 ! 1 = fst (snd (two_rows ! k))"
    using reciprocal_entries [of two_rows new_measurement] by (auto simp: two_rows_def)
  have "save_s2p_matrix m' = Some [[[Complex 1 2, Complex 3 4], [Complex 3 4, Complex 1 2]],
                                 [[Complex 5 6, Complex 7 8], [Complex 7 8, Complex 5 6]]]"
    using m' save_after_process [of two_rows new_measurement]
    by (simp add: two_rows_def upt_rec)
  then show ?thesis using m' s by (simp add: two_rows_def)
qed


end
